theory Spec2Isabelle
  imports Main "HOL-Library.AList" "HOL-Library.Sublist"
begin

section \<open>Data model of the distance-vector router\<close>

text \<open>
  The router of \<^verbatim>\<open>DVroute.py\<close> keeps all of its state in Python dictionaries.  A
  Python dictionary remembers the order in which its keys were first inserted, and both
  the iteration of the loops and the textual rendering \<^verbatim>\<open>str(d)\<close> follow that order.
  A dictionary is therefore an association list in insertion order:
  \<^item> \<^verbatim>\<open>d[k]\<close> is \<^term>\<open>map_of d k\<close>, with \<open>None\<close> standing for \<^verbatim>\<open>KeyError\<close>;
  \<^item> \<^verbatim>\<open>d[k] = v\<close> is \<^term>\<open>AList.update k v d\<close>: an existing key keeps its place, a new
    key goes to the end;
  \<^item> \<^verbatim>\<open>d.pop(k)\<close> is \<^term>\<open>AList.delete k d\<close>, after the test that the key is there.
  Python integers are unbounded, so costs are of type \<^typ>\<open>int\<close>.
\<close>

type_synonym rname = string

type_synonym address = "string \<times> int"

type_synonym 'v pydict = "(rname \<times> 'v) list"

text \<open>The inner dictionary \<^verbatim>\<open>{'nextHop': ..., 'cost': ...}\<close> of a routing-table entry.\<close>

record route =
  nextHop :: rname
  cost :: int

text \<open>The inner dictionary \<^verbatim>\<open>{'addr': ..., 'cost': ...}\<close> of a neighbor.\<close>

record neighbor_info =
  nb_addr :: address
  nb_cost :: int

text \<open>The private attributes of \<^verbatim>\<open>class Router\<close>.\<close>

record router =
  addr :: address
  neighbor :: "neighbor_info pydict"
  addr2rName :: "(address \<times> rname) list"
  MaxHop :: int
  name :: rname
  rName2addr :: "address pydict"
  rtrTable :: "route pydict"
  neighCost :: "int pydict"
  rtrTable_history :: "route pydict option"
  convergedPrintTimes :: nat
  PoisonReverse :: bool

text \<open>The exceptions that the modelled code can raise.\<close>

datatype error = KeyError | IndexError | ValueError | JSONDecodeError

text \<open>
  What the router hands to \<^verbatim>\<open>sendto\<close>: the marker \<^verbatim>\<open>'*'\<close> followed by the new cost, the
  marker \<^verbatim>\<open>'#'\<close> alone, or the JSON text of a (possibly poisoned) copy of the table.
\<close>

datatype message = LinkChangeMsg int | LinkDownMsg | VectorMsg "route pydict"

definition linkChangeFlag :: char where
  "linkChangeFlag = CHR ''*''"

definition linkDownFlag :: char where
  "linkDownFlag = CHR ''#''"

section \<open>Construction\<close>

text \<open>
  \<^verbatim>\<open>Router.__init__\<close>: the own name is looked up in the identity table (a missing address
  raises \<^verbatim>\<open>KeyError\<close>), the reverse table is filled, and the routing table and the
  neighbor costs are filled from the neighbors given.
\<close>

definition Router_init ::
  "address \<Rightarrow> neighbor_info pydict \<Rightarrow> (address \<times> rname) list \<Rightarrow> int \<Rightarrow> error + router" where
  "Router_init router_address nbr a2n M =
     (case map_of a2n router_address of
        None \<Rightarrow> Inl KeyError
      | Some nm \<Rightarrow> Inr
          \<lparr> addr = router_address,
            neighbor = nbr,
            addr2rName = a2n,
            MaxHop = M,
            name = nm,
            rName2addr = fold (\<lambda>(a, n) acc. AList.update n a acc) a2n [],
            rtrTable = fold (\<lambda>(dest, info) acc.
                AList.update dest \<lparr>nextHop = dest, cost = nb_cost info\<rparr> acc) nbr [],
            neighCost = fold (\<lambda>(nh, info) acc. AList.update nh (nb_cost info) acc) nbr [],
            rtrTable_history = None,
            convergedPrintTimes = 0,
            PoisonReverse = True \<rparr>)"

definition setPoisonReverse :: "router \<Rightarrow> bool \<Rightarrow> router" where
  "setPoisonReverse s openState = s\<lparr>PoisonReverse := openState\<rparr>"

section \<open>Applying a received vector\<close>

text \<open>
  One round of the loop of \<^verbatim>\<open>__updatertrTable\<close>, for the entry \<open>(dest, adv)\<close> of the
  received table, where \<open>adv\<close> is the inner dictionary of the sender's entry and only its
  cost is read.  The lookup \<^verbatim>\<open>self.__neighCost[From]\<close> raises \<^verbatim>\<open>KeyError\<close> when the sender
  is no neighbor; the lookup is made in each of the three branches that compute a cost,
  and in none for the own name.  The exception leaves the receive loop and ends the main
  thread, and the process with it, so the table that the failed round leaves behind is
  never read again: the model gives the exception alone.
\<close>

definition updatertrTable_body :: "rname \<Rightarrow> rname \<times> route \<Rightarrow> router \<Rightarrow> error + router" where
  "updatertrTable_body From e s =
     (let dest = fst e; adv = cost (snd e) in
      if dest = name s then Inr s
      else case map_of (rtrTable s) dest of
        None \<Rightarrow>
          (case map_of (neighCost s) From of
             None \<Rightarrow> Inl KeyError
           | Some c \<Rightarrow> Inr (s\<lparr>rtrTable := AList.update dest
                 \<lparr>nextHop = From, cost = min (c + adv) (MaxHop s + 1)\<rparr> (rtrTable s)\<rparr>))
      | Some r \<Rightarrow>
          if nextHop r = From then
            (case map_of (neighCost s) From of
               None \<Rightarrow> Inl KeyError
             | Some c \<Rightarrow> Inr (s\<lparr>rtrTable := AList.update dest
                   (r\<lparr>cost := min (c + adv) (MaxHop s + 1)\<rparr>) (rtrTable s)\<rparr>))
          else
            (case map_of (neighCost s) From of
               None \<Rightarrow> Inl KeyError
             | Some c \<Rightarrow>
                 if c + adv < cost r then
                   Inr (s\<lparr>rtrTable := AList.update dest
                     \<lparr>nextHop = From, cost = min (c + adv) (MaxHop s + 1)\<rparr> (rtrTable s)\<rparr>)
                 else Inr s))"

text \<open>The loop \<^verbatim>\<open>for dest in rtrtable\<close>; an exception ends it.\<close>

fun updatertrTable_loop :: "rname \<Rightarrow> route pydict \<Rightarrow> router \<Rightarrow> error + router" where
  "updatertrTable_loop From [] s = Inr s"
| "updatertrTable_loop From (e # es) s =
     (case updatertrTable_body From e s of
        Inl err \<Rightarrow> Inl err
      | Inr s' \<Rightarrow> updatertrTable_loop From es s')"

text \<open>\<^verbatim>\<open>__updatertrTable(addr, rtrtable)\<close>: the sender's name is looked up first.\<close>

definition updatertrTable :: "router \<Rightarrow> address \<Rightarrow> route pydict \<Rightarrow> error + router" where
  "updatertrTable s a rtrtable =
     (case map_of (addr2rName s) a of
        None \<Rightarrow> Inl KeyError
      | Some From \<Rightarrow> updatertrTable_loop From rtrtable s)"

section \<open>Building the vectors to send\<close>

text \<open>
  The inner loop of \<^verbatim>\<open>__sendRtrTable\<close>: it walks the entries of the live table and writes
  the cost \<open>MaxHop + 1\<close> into the copy.  The copy has the keys of the table, so the write
  \<^verbatim>\<open>rtrtable[dest]['cost'] = ...\<close> always finds its entry.
\<close>

fun poison_loop :: "int \<Rightarrow> rname \<Rightarrow> route pydict \<Rightarrow> route pydict \<Rightarrow> route pydict" where
  "poison_loop M nh [] rtrtable = rtrtable"
| "poison_loop M nh (e # es) rtrtable =
     poison_loop M nh es
       (if fst e \<noteq> nh \<and> nextHop (snd e) = nh
        then AList.map_entry (fst e) (\<lambda>r. r\<lparr>cost := M + 1\<rparr>) rtrtable
        else rtrtable)"

text \<open>The table that one round of the outer loop sends to the neighbor \<open>nh\<close>.\<close>

definition sendRtrTable_rtrtable :: "router \<Rightarrow> rname \<Rightarrow> route pydict" where
  "sendRtrTable_rtrtable s nh =
     (let rtrtable = rtrTable s in
      if PoisonReverse s then poison_loop (MaxHop s) nh (rtrTable s) rtrtable
      else rtrtable)"

text \<open>
  \<^verbatim>\<open>__sendRtrTable\<close>: one message for each neighbor, sent to the address that the reverse
  table gives.  A name that the reverse table does not have raises \<^verbatim>\<open>KeyError\<close>; the
  messages of the rounds before it have been sent by then.  The result is the list of the
  messages sent, with the exception that ended the loop, if any.  The state does not
  change.
\<close>

fun sendRtrTable_loop ::
  "router \<Rightarrow> rname list \<Rightarrow> (message \<times> address) list \<times> error option" where
  "sendRtrTable_loop s [] = ([], None)"
| "sendRtrTable_loop s (nh # nhs) =
     (case map_of (rName2addr s) nh of
        None \<Rightarrow> ([], Some KeyError)
      | Some a \<Rightarrow>
          (let rest = sendRtrTable_loop s nhs
           in ((VectorMsg (sendRtrTable_rtrtable s nh), a) # fst rest, snd rest)))"

definition sendRtrTable :: "router \<Rightarrow> (message \<times> address) list \<times> error option" where
  "sendRtrTable s = sendRtrTable_loop s (map fst (neighbor s))"

section \<open>Link events\<close>

text \<open>
  \<^verbatim>\<open>__linkChange\<close>: the name of the address is looked up before anything is written.
\<close>

definition linkChange ::
  "router \<Rightarrow> address \<Rightarrow> int \<Rightarrow> bool \<Rightarrow> error + router \<times> (message \<times> address) list" where
  "linkChange s a dist needSend =
     (case map_of (addr2rName s) a of
        None \<Rightarrow> Inl KeyError
      | Some rName \<Rightarrow> Inr
          (s\<lparr> neighbor := AList.update rName \<lparr>nb_addr = a, nb_cost = dist\<rparr> (neighbor s),
              neighCost := AList.update rName dist (neighCost s),
              rtrTable := AList.update rName \<lparr>nextHop = rName, cost = dist\<rparr> (rtrTable s),
              convergedPrintTimes := 0,
              rtrTable_history := None \<rparr>,
           if needSend then [(LinkChangeMsg dist, a)] else []))"

text \<open>
  \<^verbatim>\<open>__linkDown\<close>: both \<^verbatim>\<open>pop\<close> calls raise \<^verbatim>\<open>KeyError\<close> on a name that is not there.  The
  two dictionaries of the neighbors are written together everywhere, so they have the same
  keys and the first \<^verbatim>\<open>pop\<close> is the one that can fail, before anything is written.
\<close>

definition linkDown ::
  "router \<Rightarrow> address \<Rightarrow> bool \<Rightarrow> error + router \<times> (message \<times> address) list" where
  "linkDown s a needSend =
     (case map_of (addr2rName s) a of
        None \<Rightarrow> Inl KeyError
      | Some rName \<Rightarrow>
          if map_of (neighbor s) rName = None then Inl KeyError
          else if map_of (neighCost s) rName = None then Inl KeyError
          else Inr
            (s\<lparr> neighbor := AList.delete rName (neighbor s),
                neighCost := AList.delete rName (neighCost s),
                rtrTable := AList.update rName
                  \<lparr>nextHop = rName, cost = MaxHop s + 1\<rparr> (rtrTable s),
                convergedPrintTimes := 0,
                rtrTable_history := None \<rparr>,
             if needSend then [(LinkDownMsg, a)] else []))"

section \<open>The periodic report\<close>

text \<open>
  A printed row: the destination, the next hop or a blank (\<open>None\<close>), the cost or
  \<^verbatim>\<open>'inf'\<close> (\<open>None\<close>).
\<close>

type_synonym row = "rname \<times> rname option \<times> int option"

datatype report = DistanceVectorList "row list" | Converged "row list" | NoOutput

text \<open>
  The loop that both printing branches of \<^verbatim>\<open>__showrt\<close> run: each entry whose cost is
  above \<open>MaxHop\<close> is overwritten in the live table, then its row is added.
\<close>

fun showrt_loop :: "int \<Rightarrow> route pydict \<Rightarrow> route pydict \<times> row list" where
  "showrt_loop M [] = ([], [])"
| "showrt_loop M (e # es) =
     (let dest = fst e;
          r = (if cost (snd e) > M then (snd e)\<lparr>cost := M + 1\<rparr> else snd e);
          rw = (dest, if cost r \<le> M then Some (nextHop r) else None,
                      if cost r \<le> M then Some (cost r) else None);
          rest = showrt_loop M es
      in ((dest, r) # fst rest, rw # snd rest))"

text \<open>
  The test \<^verbatim>\<open>str(self.__rtrTable) != str(self.__rtrTable_history)\<close> compares the renderings
  of the two values.  The rendering of a dictionary lists its items in insertion order and
  determines them, and the rendering of \<^verbatim>\<open>None\<close> is that of no dictionary; so the two
  strings are equal exactly when the history is a table with the same items in the same
  order.
\<close>

definition str_eq :: "route pydict \<Rightarrow> route pydict option \<Rightarrow> bool" where
  "str_eq t h = (h = Some t)"

definition showrt :: "router \<Rightarrow> report \<times> router" where
  "showrt s =
     (if \<not> str_eq (rtrTable s) (rtrTable_history s) then
        (let res = showrt_loop (MaxHop s) (rtrTable s) in
         (DistanceVectorList (snd res),
          s\<lparr>rtrTable := fst res, rtrTable_history := Some (fst res),
            convergedPrintTimes := 0\<rparr>))
      else if convergedPrintTimes s = 0 then
        (let res = showrt_loop (MaxHop s) (rtrTable s) in
         (Converged (snd res), s\<lparr>rtrTable := fst res, convergedPrintTimes := 1\<rparr>))
      else (NoOutput, s))"

text \<open>Whether a tick found the table unchanged (the \<^verbatim>\<open>else\<close> branch of \<^verbatim>\<open>__showrt\<close>).\<close>

fun stable :: "report \<Rightarrow> bool" where
  "stable (DistanceVectorList rows) = False"
| "stable (Converged rows) = True"
| "stable NoOutput = True"

section \<open>The receive loop\<close>

text \<open>
  What one call of \<^verbatim>\<open>recvfrom\<close> gives: a datagram with its sender, or a
  \<^verbatim>\<open>ConnectionError\<close>.
\<close>

datatype received = Datagram string address | ConnectionError

text \<open>
  One round of the loop of \<^verbatim>\<open>__recvRtrTable\<close>.  The two library functions that the round
  calls are parameters: \<open>py_int\<close> is \<^verbatim>\<open>int\<close> on a string, and \<open>json_loads\<close> is
  \<^verbatim>\<open>json.loads\<close>, each \<open>None\<close> where the library raises.  The arguments of a call are
  evaluated before the call, so a payload that does not parse raises before the sender is
  looked up.  Only \<^verbatim>\<open>ConnectionError\<close> is caught; every other exception leaves the loop.
\<close>

definition recvRtrTable_body ::
  "(string \<Rightarrow> int option) \<Rightarrow> (string \<Rightarrow> route pydict option) \<Rightarrow>
   router \<Rightarrow> received \<Rightarrow> error + router" where
  "recvRtrTable_body py_int json_loads s ev =
     (case ev of
        ConnectionError \<Rightarrow> Inr s
      | Datagram data a \<Rightarrow>
          (case data of
             [] \<Rightarrow> Inl IndexError
           | c # rest \<Rightarrow>
               if c = linkChangeFlag then
                 (case py_int rest of
                    None \<Rightarrow> Inl ValueError
                  | Some dist \<Rightarrow> map_sum id fst (linkChange s a dist False))
               else if c = linkDownFlag then
                 map_sum id fst (linkDown s a False)
               else
                 (case json_loads data of
                    None \<Rightarrow> Inl JSONDecodeError
                  | Some rtrtable \<Rightarrow> updatertrTable s a rtrtable)))"

text \<open>
  The loop \<^verbatim>\<open>while True\<close> over the datagrams that arrive: \<open>Inr\<close> is the state when all of
  them have been handled and the loop waits for the next, \<open>Inl\<close> the exception that ended
  the loop, and with it the main thread.
\<close>

fun recvRtrTable ::
  "(string \<Rightarrow> int option) \<Rightarrow> (string \<Rightarrow> route pydict option) \<Rightarrow>
   router \<Rightarrow> received list \<Rightarrow> error + router" where
  "recvRtrTable py_int json_loads s [] = Inr s"
| "recvRtrTable py_int json_loads s (ev # evs) =
     (case recvRtrTable_body py_int json_loads s ev of
        Inl err \<Rightarrow> Inl err
      | Inr s' \<Rightarrow> recvRtrTable py_int json_loads s' evs)"

section \<open>Runs of the engine\<close>

text \<open>
  The timer thread, the command thread and the receive loop each call the operations
  above; a run of the router is a sequence of such calls on the state made by
  \<^const>\<open>Router_init\<close>.  A command that raises is caught by the command loop before it
  has written anything, so the states of the router are those of the runs in which every
  call returns.
\<close>

datatype event =
    LinkChange address int bool
  | LinkDown address bool
  | UpdatertrTable address "route pydict"
  | Showrt
  | SetPoisonReverse bool

definition engine_step :: "router \<Rightarrow> event \<Rightarrow> error + router" where
  "engine_step s ev =
     (case ev of
        LinkChange a dist needSend \<Rightarrow> map_sum id fst (linkChange s a dist needSend)
      | LinkDown a needSend \<Rightarrow> map_sum id fst (linkDown s a needSend)
      | UpdatertrTable a rtrtable \<Rightarrow> updatertrTable s a rtrtable
      | Showrt \<Rightarrow> Inr (snd (showrt s))
      | SetPoisonReverse b \<Rightarrow> Inr (setPoisonReverse s b))"

fun engine_run :: "router \<Rightarrow> event list \<Rightarrow> error + router" where
  "engine_run s [] = Inr s"
| "engine_run s (ev # evs) =
     (case engine_step s ev of
        Inl err \<Rightarrow> Inl err
      | Inr s' \<Rightarrow> engine_run s' evs)"

section \<open>Properties of a state\<close>

text \<open>
  What every state of a run has: the keys of the routing table are distinct, as those of a
  dictionary are; and a snapshot, when there is one, has its destinations in the order of
  the routing table, of which they are the first ones, and holds no cost above
  \<open>MaxHop + 1\<close>.
\<close>

definition snapshot_inv :: "router \<Rightarrow> bool" where
  "snapshot_inv s =
     (distinct (map fst (rtrTable s)) \<and>
      (case rtrTable_history s of
         None \<Rightarrow> True
       | Some h \<Rightarrow> prefix (map fst h) (map fst (rtrTable s)) \<and>
           list_all (\<lambda>e. cost (snd e) \<le> MaxHop s + 1) h))"

text \<open>The range of the costs: every stored cost is between 0 and \<open>MaxHop + 1\<close>.\<close>

definition cost_range_inv :: "router \<Rightarrow> bool" where
  "cost_range_inv s =
     list_all (\<lambda>e. 0 \<le> cost (snd e) \<and> cost (snd e) \<le> MaxHop s + 1) (rtrTable s)"

definition neighCost_nonneg :: "router \<Rightarrow> bool" where
  "neighCost_nonneg s = list_all (\<lambda>e. 0 \<le> snd e) (neighCost s)"

text \<open>
  An event whose costs are in range: a link cost between 0 and \<open>M + 1\<close>, a vector that
  advertises no negative cost.
\<close>

fun event_in_range :: "int \<Rightarrow> event \<Rightarrow> bool" where
  "event_in_range M (LinkChange a dist needSend) = (0 \<le> dist \<and> dist \<le> M + 1)"
| "event_in_range M (UpdatertrTable a rtrtable) = list_all (\<lambda>e. 0 \<le> cost (snd e)) rtrtable"
| "event_in_range M (LinkDown a needSend) = True"
| "event_in_range M Showrt = True"
| "event_in_range M (SetPoisonReverse b) = True"

section \<open>A concrete router\<close>

text \<open>The module-level identity table \<^verbatim>\<open>addr2rName\<close> of the source.\<close>

definition addr_A :: address where "addr_A = (''192.168.126.65'', 20000)"
definition addr_B :: address where "addr_B = (''192.168.126.66'', 20000)"
definition addr_C :: address where "addr_C = (''192.168.126.67'', 20000)"
definition addr_D :: address where "addr_D = (''192.168.126.68'', 20000)"
definition addr_E :: address where "addr_E = (''192.168.126.69'', 20000)"

definition addr2rName_table :: "(address \<times> rname) list" where
  "addr2rName_table =
     [(addr_A, ''A''), (addr_B, ''B''), (addr_C, ''C''), (addr_D, ''D''), (addr_E, ''E'')]"

text \<open>Router \<open>E\<close>, started with the neighbors \<open>A\<close> at cost 2 and \<open>B\<close> at cost 5.\<close>

definition ex_neighbor :: "neighbor_info pydict" where
  "ex_neighbor =
     [(''A'', \<lparr>nb_addr = addr_A, nb_cost = 2\<rparr>), (''B'', \<lparr>nb_addr = addr_B, nb_cost = 5\<rparr>)]"

definition ex_router :: router where
  "ex_router =
     \<lparr> addr = addr_E,
       neighbor = ex_neighbor,
       addr2rName = addr2rName_table,
       MaxHop = 15,
       name = ''E'',
       rName2addr =
         [(''A'', addr_A), (''B'', addr_B), (''C'', addr_C), (''D'', addr_D), (''E'', addr_E)],
       rtrTable = [(''A'', \<lparr>nextHop = ''A'', cost = 2\<rparr>), (''B'', \<lparr>nextHop = ''B'', cost = 5\<rparr>)],
       neighCost = [(''A'', 2), (''B'', 5)],
       rtrTable_history = None,
       convergedPrintTimes = 0,
       PoisonReverse = True \<rparr>"

text \<open>The same router after \<open>A\<close> has advertised \<open>C\<close> at cost 3.\<close>

definition ex_learned :: router where
  "ex_learned = ex_router\<lparr>rtrTable :=
     [(''A'', \<lparr>nextHop = ''A'', cost = 2\<rparr>), (''B'', \<lparr>nextHop = ''B'', cost = 5\<rparr>),
      (''C'', \<lparr>nextHop = ''A'', cost = 5\<rparr>)]\<rparr>"

text \<open>Router \<open>E\<close> after the link to \<open>B\<close> has been given the cost 100.\<close>

definition ex_far :: router where
  "ex_far = ex_router\<lparr>
     neighbor :=
       [(''A'', \<lparr>nb_addr = addr_A, nb_cost = 2\<rparr>), (''B'', \<lparr>nb_addr = addr_B, nb_cost = 100\<rparr>)],
     neighCost := [(''A'', 2), (''B'', 100)],
     rtrTable := [(''A'', \<lparr>nextHop = ''A'', cost = 2\<rparr>), (''B'', \<lparr>nextHop = ''B'', cost = 100\<rparr>)]\<rparr>"

text \<open>Router \<open>E\<close> after two ticks of the timer: the table has been reported and found stable.\<close>

definition ex_reported :: router where
  "ex_reported = ex_router\<lparr>
     rtrTable_history :=
       Some [(''A'', \<lparr>nextHop = ''A'', cost = 2\<rparr>), (''B'', \<lparr>nextHop = ''B'', cost = 5\<rparr>)],
     convergedPrintTimes := 1\<rparr>"

text \<open>The router with the route to \<open>C\<close> through \<open>A\<close>, after the link to \<open>A\<close> has gone down.\<close>

definition ex_down :: router where
  "ex_down = ex_router\<lparr>
     neighbor := [(''B'', \<lparr>nb_addr = addr_B, nb_cost = 5\<rparr>)],
     neighCost := [(''B'', 5)],
     rtrTable :=
       [(''A'', \<lparr>nextHop = ''A'', cost = 16\<rparr>), (''B'', \<lparr>nextHop = ''B'', cost = 5\<rparr>),
        (''C'', \<lparr>nextHop = ''A'', cost = 5\<rparr>)]\<rparr>"

lemmas ex_defs =
  addr_A_def addr_B_def addr_C_def addr_D_def addr_E_def addr2rName_table_def
  ex_neighbor_def ex_router_def ex_learned_def ex_far_def ex_reported_def ex_down_def

section \<open>The concrete router is one the code makes\<close>

lemma ex_router_init: "Router_init addr_E ex_neighbor addr2rName_table 15 = Inr ex_router"
  by (simp add: Router_init_def ex_defs)

lemma ex_learned_reached:
  "updatertrTable ex_router addr_A [(''C'', \<lparr>nextHop = ''C'', cost = 3\<rparr>)] = Inr ex_learned"
  by (simp add: updatertrTable_def updatertrTable_body_def Let_def ex_defs)

lemma ex_far_reached: "linkChange ex_router addr_B 100 False = Inr (ex_far, [])"
  by (simp add: linkChange_def ex_defs)

section \<open>Facts about applying a vector\<close>

text \<open>A round of the loop changes the routing table and nothing else.\<close>

lemma frame_fields:
  "s' = s\<lparr>rtrTable := t\<rparr> \<Longrightarrow>
   name s' = name s \<and> MaxHop s' = MaxHop s \<and> neighCost s' = neighCost s \<and>
   addr2rName s' = addr2rName s \<and> rtrTable_history s' = rtrTable_history s \<and>
   convergedPrintTimes s' = convergedPrintTimes s \<and> neighbor s' = neighbor s"
  by simp

lemma body_frame:
  "updatertrTable_body From e s = Inr s' \<Longrightarrow> s' = s\<lparr>rtrTable := rtrTable s'\<rparr>"
  by (auto simp: updatertrTable_body_def Let_def split: if_splits option.splits)

lemma body_other:
  "updatertrTable_body From e s = Inr s' \<Longrightarrow> k \<noteq> fst e \<Longrightarrow>
   map_of (rtrTable s') k = map_of (rtrTable s) k"
  by (auto simp: updatertrTable_body_def Let_def update_conv' split: if_splits option.splits)

lemma body_self:
  "updatertrTable_body From e s = Inr s' \<Longrightarrow>
   map_of (rtrTable s') (name s) = map_of (rtrTable s) (name s)"
  by (auto simp: updatertrTable_body_def Let_def update_conv' split: if_splits option.splits)

lemma body_total:
  "map_of (neighCost s) From = Some c \<Longrightarrow> \<exists>s'. updatertrTable_body From e s = Inr s'"
  by (auto simp: updatertrTable_body_def Let_def split: option.splits)

lemma loop_Cons_Inr:
  "updatertrTable_loop From (e # es) s = Inr s' \<longleftrightarrow>
   (\<exists>s1. updatertrTable_body From e s = Inr s1 \<and> updatertrTable_loop From es s1 = Inr s')"
  by (auto split: sum.splits)

lemma loop_frame:
  "updatertrTable_loop From es s = Inr s' \<Longrightarrow> s' = s\<lparr>rtrTable := rtrTable s'\<rparr>"
proof (induction es arbitrary: s)
  case Nil
  then show ?case by simp
next
  case (Cons e es)
  from Cons.prems [unfolded loop_Cons_Inr] obtain s1
    where b: "updatertrTable_body From e s = Inr s1"
      and l: "updatertrTable_loop From es s1 = Inr s'"
    by blast
  have "s' = s1\<lparr>rtrTable := rtrTable s'\<rparr>" by (rule Cons.IH [OF l])
  moreover have "s1 = s\<lparr>rtrTable := rtrTable s1\<rparr>" by (rule body_frame [OF b])
  ultimately have "s' = s\<lparr>rtrTable := rtrTable s1\<rparr>\<lparr>rtrTable := rtrTable s'\<rparr>" by simp
  then show ?case by simp
qed

lemma loop_other:
  "updatertrTable_loop From es s = Inr s' \<Longrightarrow> k \<notin> fst ` set es \<Longrightarrow>
   map_of (rtrTable s') k = map_of (rtrTable s) k"
proof (induction es arbitrary: s)
  case Nil
  then show ?case by simp
next
  case (Cons e es)
  from Cons.prems(1) [unfolded loop_Cons_Inr] obtain s1
    where b: "updatertrTable_body From e s = Inr s1"
      and l: "updatertrTable_loop From es s1 = Inr s'"
    by blast
  from Cons.prems(2) have "k \<noteq> fst e" and "k \<notin> fst ` set es" by auto
  with Cons.IH [OF l] body_other [OF b] show ?case by simp
qed

lemma loop_self:
  "updatertrTable_loop From es s = Inr s' \<Longrightarrow>
   map_of (rtrTable s') (name s) = map_of (rtrTable s) (name s)"
proof (induction es arbitrary: s)
  case Nil
  then show ?case by simp
next
  case (Cons e es)
  from Cons.prems(1) [unfolded loop_Cons_Inr] obtain s1
    where b: "updatertrTable_body From e s = Inr s1"
      and l: "updatertrTable_loop From es s1 = Inr s'"
    by blast
  have "name s1 = name s" using frame_fields [OF body_frame [OF b]] by simp
  with Cons.IH [OF l] body_self [OF b] show ?case by simp
qed

lemma loop_append:
  "updatertrTable_loop From (xs @ ys) s =
     (case updatertrTable_loop From xs s of
        Inl err \<Rightarrow> Inl err
      | Inr s1 \<Rightarrow> updatertrTable_loop From ys s1)"
  by (induction xs arbitrary: s) (auto split: sum.splits)

text \<open>With the sender among the neighbors no lookup fails, and the whole vector is applied.\<close>

lemma loop_total:
  "map_of (neighCost s) From = Some c \<Longrightarrow> \<exists>s'. updatertrTable_loop From es s = Inr s'"
proof (induction es arbitrary: s)
  case Nil
  then show ?case by simp
next
  case (Cons e es)
  from body_total [OF Cons.prems] obtain s1 where b: "updatertrTable_body From e s = Inr s1"
    by blast
  have "neighCost s1 = neighCost s" using frame_fields [OF body_frame [OF b]] by simp
  with Cons.prems have "map_of (neighCost s1) From = Some c" by simp
  from Cons.IH [OF this] b show ?case by simp
qed

text \<open>
  The keys of a received dictionary are distinct, so the round for one of its entries is
  the only one that touches the route to that destination.
\<close>

lemma loop_entry:
  assumes "distinct (map fst es)" and "e \<in> set es"
    and "updatertrTable_loop From es s = Inr s'"
  shows "\<exists>s1 s2. s1 = s\<lparr>rtrTable := rtrTable s1\<rparr> \<and>
           map_of (rtrTable s1) (fst e) = map_of (rtrTable s) (fst e) \<and>
           updatertrTable_body From e s1 = Inr s2 \<and>
           map_of (rtrTable s') (fst e) = map_of (rtrTable s2) (fst e)"
proof -
  from assms(2) obtain xs ys where es: "es = xs @ e # ys"
    by (auto simp: in_set_conv_decomp)
  with assms(1) have nx: "fst e \<notin> fst ` set xs" and ny: "fst e \<notin> fst ` set ys"
    by auto
  from assms(3) es obtain s1 where l1: "updatertrTable_loop From xs s = Inr s1"
    and l2: "updatertrTable_loop From (e # ys) s1 = Inr s'"
    by (auto simp: loop_append split: sum.splits)
  from l2 [unfolded loop_Cons_Inr] obtain s2
    where b: "updatertrTable_body From e s1 = Inr s2"
      and l3: "updatertrTable_loop From ys s2 = Inr s'"
    by blast
  from loop_frame [OF l1] loop_other [OF l1 nx] b loop_other [OF l3 ny]
  show ?thesis by blast
qed

section \<open>The update rule\<close>

text \<open>
  Claim C1.  Let the vector come from the address of \<open>F\<close>, a current neighbor with link
  cost \<open>c\<close>, and let it advertise a destination \<open>d\<close>, other than the router itself, whose
  route has the next hop \<open>F\<close>.  Then the vector is applied without an error, and
  afterwards the route to \<open>d\<close> still has the next hop \<open>F\<close> and has the cost
  \<open>min (c + advertised cost) (MaxHop + 1)\<close>, whatever its cost was before.
\<close>

theorem same_nextHop_overwritten:
  assumes "map_of (addr2rName s) a = Some F"
    and "map_of (neighCost s) F = Some c"
    and "distinct (map fst rtrtable)"
    and "(d, adv) \<in> set rtrtable"
    and "d \<noteq> name s"
    and "map_of (rtrTable s) d = Some r"
    and "nextHop r = F"
  shows "\<exists>s'. updatertrTable s a rtrtable = Inr s' \<and>
           map_of (rtrTable s') d =
             Some \<lparr>nextHop = F, cost = min (c + cost adv) (MaxHop s + 1)\<rparr>"
proof -
  from loop_total [OF assms(2)] obtain s'
    where l: "updatertrTable_loop F rtrtable s = Inr s'"
    by blast
  from loop_entry [OF assms(3,4) l] obtain s1 s2 where
    fr: "s1 = s\<lparr>rtrTable := rtrTable s1\<rparr>" and
    t1: "map_of (rtrTable s1) d = map_of (rtrTable s) d" and
    b: "updatertrTable_body F (d, adv) s1 = Inr s2" and
    t2: "map_of (rtrTable s') d = map_of (rtrTable s2) d"
    by auto
  have n: "name s1 = name s" "neighCost s1 = neighCost s" "MaxHop s1 = MaxHop s"
    using frame_fields [OF fr] by simp_all
  from b t1 assms n have "map_of (rtrTable s2) d =
      Some (r\<lparr>cost := min (c + cost adv) (MaxHop s + 1)\<rparr>)"
    by (auto simp: updatertrTable_body_def Let_def update_conv')
  with t2 assms(7) l assms(1) show ?thesis
    by (simp add: updatertrTable_def)
qed

text \<open>
  The scenario of the specification: the route to \<open>C\<close> goes through \<open>A\<close> at cost 5, and
  \<open>A\<close> now advertises \<open>C\<close> at cost 20.  The cost rises to the cap 16.
\<close>

theorem same_nextHop_overwritten_witness:
  "map_of (addr2rName ex_learned) addr_A = Some ''A'' \<and>
   map_of (neighCost ex_learned) ''A'' = Some 2 \<and>
   map_of (rtrTable ex_learned) ''C'' = Some \<lparr>nextHop = ''A'', cost = 5\<rparr> \<and>
   (\<exists>s'. updatertrTable ex_learned addr_A [(''C'', \<lparr>nextHop = ''C'', cost = 20\<rparr>)] = Inr s' \<and>
         map_of (rtrTable s') ''C'' = Some \<lparr>nextHop = ''A'', cost = 16\<rparr>)"
proof -
  have h1: "map_of (addr2rName ex_learned) addr_A = Some ''A''"
    by (simp add: ex_defs)
  have h2: "map_of (neighCost ex_learned) ''A'' = Some 2"
    by (simp add: ex_defs)
  have h3: "distinct (map fst [(''C'', \<lparr>nextHop = ''C'', cost = 20\<rparr>)])"
    by simp
  have h4: "(''C'', \<lparr>nextHop = ''C'', cost = 20\<rparr>) \<in> set [(''C'', \<lparr>nextHop = ''C'', cost = 20\<rparr>)]"
    by simp
  have h5: "''C'' \<noteq> name ex_learned"
    by (simp add: ex_defs)
  have h6: "map_of (rtrTable ex_learned) ''C'' = Some \<lparr>nextHop = ''A'', cost = 5\<rparr>"
    by (simp add: ex_defs)
  have h7: "nextHop \<lparr>nextHop = ''A'', cost = 5\<rparr> = ''A''"
    by simp
  have m: "MaxHop ex_learned = 15"
    by (simp add: ex_defs)
  from same_nextHop_overwritten [OF h1 h2 h3 h4 h5 h6 h7] h1 h2 h6 m show ?thesis
    by simp
qed

text \<open>
  Claim C3, as the code has it.  Let the vector come from the address of \<open>F\<close>, a current
  neighbor with link cost \<open>c\<close>, and let it advertise a destination \<open>d\<close>, other than the
  router itself, whose route \<open>r\<close> has a next hop other than \<open>F\<close>.  The route is replaced
  by the next hop \<open>F\<close> at cost \<open>min (c + advertised cost) (MaxHop + 1)\<close> exactly when the sum
  \<open>c + advertised cost\<close>, before it is capped, is below the cost of \<open>r\<close>; otherwise the
  route stays as it is.  When the cost of \<open>r\<close> is at most \<open>MaxHop + 1\<close> the test on the sum
  and the test on the capped candidate agree.
\<close>

theorem other_nextHop_relaxed:
  assumes "map_of (addr2rName s) a = Some F"
    and "map_of (neighCost s) F = Some c"
    and "distinct (map fst rtrtable)"
    and "(d, adv) \<in> set rtrtable"
    and "d \<noteq> name s"
    and "map_of (rtrTable s) d = Some r"
    and "nextHop r \<noteq> F"
  shows "(\<exists>s'. updatertrTable s a rtrtable = Inr s' \<and>
            map_of (rtrTable s') d =
              Some (if c + cost adv < cost r
                    then \<lparr>nextHop = F, cost = min (c + cost adv) (MaxHop s + 1)\<rparr>
                    else r)) \<and>
         (cost r \<le> MaxHop s + 1 \<longrightarrow>
            (c + cost adv < cost r \<longleftrightarrow> min (c + cost adv) (MaxHop s + 1) < cost r))"
proof -
  from loop_total [OF assms(2)] obtain s'
    where l: "updatertrTable_loop F rtrtable s = Inr s'"
    by blast
  from loop_entry [OF assms(3,4) l] obtain s1 s2 where
    fr: "s1 = s\<lparr>rtrTable := rtrTable s1\<rparr>" and
    t1: "map_of (rtrTable s1) d = map_of (rtrTable s) d" and
    b: "updatertrTable_body F (d, adv) s1 = Inr s2" and
    t2: "map_of (rtrTable s') d = map_of (rtrTable s2) d"
    by auto
  have n: "name s1 = name s" "neighCost s1 = neighCost s" "MaxHop s1 = MaxHop s"
    using frame_fields [OF fr] by simp_all
  from b t1 assms n have "map_of (rtrTable s2) d =
      Some (if c + cost adv < cost r
            then \<lparr>nextHop = F, cost = min (c + cost adv) (MaxHop s + 1)\<rparr>
            else r)"
    by (auto simp: updatertrTable_body_def Let_def update_conv' split: if_splits)
  with t2 l assms(1) have "\<exists>s'. updatertrTable s a rtrtable = Inr s' \<and>
        map_of (rtrTable s') d =
          Some (if c + cost adv < cost r
                then \<lparr>nextHop = F, cost = min (c + cost adv) (MaxHop s + 1)\<rparr>
                else r)"
    by (simp add: updatertrTable_def)
  moreover have "cost r \<le> MaxHop s + 1 \<longrightarrow>
      (c + cost adv < cost r \<longleftrightarrow> min (c + cost adv) (MaxHop s + 1) < cost r)"
    by auto
  ultimately show ?thesis by blast
qed

text \<open>
  The scenario of the specification: the route to \<open>C\<close> goes through \<open>A\<close> at cost 5, and
  \<open>B\<close>, at link cost 5, advertises \<open>C\<close> at cost 1.  The candidate 6 is not better and the
  route stays.
\<close>

theorem other_nextHop_relaxed_witness:
  "map_of (addr2rName ex_learned) addr_B = Some ''B'' \<and>
   map_of (neighCost ex_learned) ''B'' = Some 5 \<and>
   map_of (rtrTable ex_learned) ''C'' = Some \<lparr>nextHop = ''A'', cost = 5\<rparr> \<and>
   (\<exists>s'. updatertrTable ex_learned addr_B [(''C'', \<lparr>nextHop = ''C'', cost = 1\<rparr>)] = Inr s' \<and>
         map_of (rtrTable s') ''C'' = Some \<lparr>nextHop = ''A'', cost = 5\<rparr>)"
proof -
  have h1: "map_of (addr2rName ex_learned) addr_B = Some ''B''"
    by (simp add: ex_defs)
  have h2: "map_of (neighCost ex_learned) ''B'' = Some 5"
    by (simp add: ex_defs)
  have h3: "distinct (map fst [(''C'', \<lparr>nextHop = ''C'', cost = 1\<rparr>)])"
    by simp
  have h4: "(''C'', \<lparr>nextHop = ''C'', cost = 1\<rparr>) \<in> set [(''C'', \<lparr>nextHop = ''C'', cost = 1\<rparr>)]"
    by simp
  have h5: "''C'' \<noteq> name ex_learned"
    by (simp add: ex_defs)
  have h6: "map_of (rtrTable ex_learned) ''C'' = Some \<lparr>nextHop = ''A'', cost = 5\<rparr>"
    by (simp add: ex_defs)
  have h7: "nextHop \<lparr>nextHop = ''A'', cost = 5\<rparr> \<noteq> ''B''"
    by simp
  from other_nextHop_relaxed [OF h1 h2 h3 h4 h5 h6 h7] h1 h2 h6 show ?thesis
    by simp
qed

text \<open>
  Claim C3 fails as it is stated.  Router \<open>E\<close> is started with the neighbors \<open>A\<close> at cost
  2 and \<open>B\<close> at cost 5, and the link to \<open>B\<close> is then given the cost 100, which the table
  stores as it is.  Now \<open>A\<close> advertises \<open>B\<close> at cost 200.  The capped candidate 16 is below
  the stored cost 100, but the code compares the sum 202 and leaves the route alone.
\<close>

theorem capped_candidate_counterexample:
  "Router_init addr_E ex_neighbor addr2rName_table 15 = Inr ex_router \<and>
   linkChange ex_router addr_B 100 False = Inr (ex_far, []) \<and>
   map_of (neighCost ex_far) ''A'' = Some 2 \<and>
   map_of (rtrTable ex_far) ''B'' = Some \<lparr>nextHop = ''B'', cost = 100\<rparr> \<and>
   min (2 + 200) (MaxHop ex_far + 1) < 100 \<and>
   updatertrTable ex_far addr_A [(''B'', \<lparr>nextHop = ''B'', cost = 200\<rparr>)] = Inr ex_far \<and>
   map_of (rtrTable ex_far) ''B'' \<noteq> Some \<lparr>nextHop = ''A'', cost = min (2 + 200) (MaxHop ex_far + 1)\<rparr>"
  by (simp add: ex_router_init ex_far_reached)
     (simp add: updatertrTable_def updatertrTable_body_def Let_def ex_defs)

section \<open>The router's own name\<close>

text \<open>
  Claim C9.  When a vector has been applied, the routing table holds for the router's own
  name what it held before: no route to it has been made, and a route to it that was there
  has not been changed.  The name itself does not change either.
\<close>

theorem own_name_untouched:
  assumes "updatertrTable s a rtrtable = Inr s'"
  shows "map_of (rtrTable s') (name s) = map_of (rtrTable s) (name s) \<and> name s' = name s"
proof -
  from assms obtain From where l: "updatertrTable_loop From rtrtable s = Inr s'"
    by (auto simp: updatertrTable_def split: option.splits)
  from loop_self [OF l] frame_fields [OF loop_frame [OF l]] show ?thesis by simp
qed

text \<open>
  Router \<open>E\<close> receives from \<open>A\<close> a vector that names \<open>E\<close> itself and \<open>C\<close>: the route to \<open>C\<close>
  is learned, and there is still no route to \<open>E\<close>.
\<close>

theorem own_name_untouched_witness:
  "updatertrTable ex_router addr_A
     [(''E'', \<lparr>nextHop = ''E'', cost = 2\<rparr>), (''C'', \<lparr>nextHop = ''C'', cost = 3\<rparr>)] = Inr ex_learned \<and>
   map_of (rtrTable ex_router) ''E'' = None \<and>
   map_of (rtrTable ex_learned) ''E'' = None \<and>
   map_of (rtrTable ex_learned) ''C'' = Some \<lparr>nextHop = ''A'', cost = 5\<rparr>"
proof -
  have h: "updatertrTable ex_router addr_A
     [(''E'', \<lparr>nextHop = ''E'', cost = 2\<rparr>), (''C'', \<lparr>nextHop = ''C'', cost = 3\<rparr>)] = Inr ex_learned"
    by (simp add: updatertrTable_def updatertrTable_body_def Let_def ex_defs)
  have n: "name ex_router = ''E''" "map_of (rtrTable ex_router) ''E'' = None"
    by (simp_all add: ex_defs)
  have c: "map_of (rtrTable ex_learned) ''C'' = Some \<lparr>nextHop = ''A'', cost = 5\<rparr>"
    by (simp add: ex_defs)
  from own_name_untouched [OF h] h n c show ?thesis by simp
qed

section \<open>Link events\<close>

text \<open>
  Claim C4.  Let \<open>P\<close> be the name of the address given, and a current neighbor.  Then
  \<^const>\<open>linkDown\<close> returns without an error; afterwards \<open>P\<close> has no neighbor cost, the
  routing table holds for \<open>P\<close> the next hop \<open>P\<close> at cost \<open>MaxHop + 1\<close>, and the routes to
  all other destinations are as they were.
\<close>

theorem linkDown_leaves_stub:
  assumes "map_of (addr2rName s) a = Some P"
    and "map_of (neighbor s) P = Some info"
    and "map_of (neighCost s) P = Some c"
  shows "\<exists>s' out. linkDown s a needSend = Inr (s', out) \<and>
           map_of (neighCost s') P = None \<and>
           map_of (rtrTable s') P = Some \<lparr>nextHop = P, cost = MaxHop s + 1\<rparr> \<and>
           (\<forall>d. d \<noteq> P \<longrightarrow> map_of (rtrTable s') d = map_of (rtrTable s) d)"
  using assms by (simp add: linkDown_def update_conv' delete_conv')

text \<open>
  The link to \<open>A\<close> goes down while the route to \<open>C\<close> goes through \<open>A\<close>: the entry for \<open>A\<close>
  becomes the stub at cost 16, and the route to \<open>C\<close> stays as it was.
\<close>

theorem linkDown_leaves_stub_witness:
  "map_of (addr2rName ex_learned) addr_A = Some ''A'' \<and>
   map_of (neighCost ex_learned) ''A'' = Some 2 \<and>
   linkDown ex_learned addr_A True = Inr (ex_down, [(LinkDownMsg, addr_A)]) \<and>
   map_of (neighCost ex_down) ''A'' = None \<and>
   map_of (rtrTable ex_down) ''A'' = Some \<lparr>nextHop = ''A'', cost = 16\<rparr> \<and>
   map_of (rtrTable ex_down) ''C'' = map_of (rtrTable ex_learned) ''C''"
proof -
  have h1: "map_of (addr2rName ex_learned) addr_A = Some ''A''"
    by (simp add: ex_defs)
  have h2: "map_of (neighbor ex_learned) ''A'' = Some \<lparr>nb_addr = addr_A, nb_cost = 2\<rparr>"
    by (simp add: ex_defs)
  have h3: "map_of (neighCost ex_learned) ''A'' = Some 2"
    by (simp add: ex_defs)
  have e: "linkDown ex_learned addr_A True = Inr (ex_down, [(LinkDownMsg, addr_A)])"
    by (simp add: linkDown_def ex_defs)
  have m: "MaxHop ex_learned = 15"
    by (simp add: ex_defs)
  from linkDown_leaves_stub [OF h1 h2 h3, of True] e m h1 h3 show ?thesis
    by auto
qed

text \<open>
  Claim C8.  After \<^const>\<open>linkChange\<close> or \<^const>\<open>linkDown\<close> has returned, the stored
  snapshot is gone, and the next tick takes the branch for a changed table: it prints the
  table again, whatever the table and the snapshot were before.
\<close>

theorem link_event_forces_report:
  assumes "linkChange s a dist needSend = Inr (s', out) \<or> linkDown s a needSend = Inr (s', out)"
  shows "rtrTable_history s' = None \<and> \<not> stable (fst (showrt s')) \<and>
         fst (showrt s') = DistanceVectorList (snd (showrt_loop (MaxHop s') (rtrTable s')))"
proof -
  from assms have "rtrTable_history s' = None"
    by (auto simp: linkChange_def linkDown_def split: option.splits if_splits)
  then show ?thesis
    by (simp add: showrt_def str_eq_def Let_def)
qed

text \<open>
  The table of \<open>E\<close> has been reported and found stable.  The link to \<open>A\<close> is then given the
  cost 2 that it has already, so the table is equal to the snapshot; the next tick prints
  it all the same.  So it does after the link to \<open>A\<close> has gone down.
\<close>

theorem link_event_forces_report_witness:
  "linkChange ex_reported addr_A 2 False = Inr (ex_router, []) \<and>
   rtrTable_history ex_reported = Some (rtrTable ex_router) \<and>
   stable (fst (showrt ex_reported)) \<and>
   fst (showrt ex_router) =
     DistanceVectorList [(''A'', Some ''A'', Some 2), (''B'', Some ''B'', Some 5)] \<and>
   linkDown ex_learned addr_A True = Inr (ex_down, [(LinkDownMsg, addr_A)]) \<and>
   fst (showrt ex_down) =
     DistanceVectorList
       [(''A'', None, None), (''B'', Some ''B'', Some 5), (''C'', Some ''A'', Some 5)]"
proof -
  have h1: "linkChange ex_reported addr_A 2 False = Inr (ex_router, [])"
    by (simp add: linkChange_def ex_defs)
  have h2: "linkDown ex_learned addr_A True = Inr (ex_down, [(LinkDownMsg, addr_A)])"
    by (simp add: linkDown_def ex_defs)
  have t: "rtrTable_history ex_reported = Some (rtrTable ex_router)"
    by (simp add: ex_defs)
  have st: "stable (fst (showrt ex_reported))"
    by (simp add: showrt_def str_eq_def ex_defs)
  have r1: "snd (showrt_loop (MaxHop ex_router) (rtrTable ex_router)) =
      [(''A'', Some ''A'', Some 2), (''B'', Some ''B'', Some 5)]"
    by (simp add: ex_defs Let_def)
  have r2: "snd (showrt_loop (MaxHop ex_down) (rtrTable ex_down)) =
      [(''A'', None, None), (''B'', Some ''B'', Some 5), (''C'', Some ''A'', Some 5)]"
    by (simp add: ex_defs Let_def)
  from link_event_forces_report [of ex_reported addr_A 2 False ex_router "[]"] h1
  have "fst (showrt ex_router) =
      DistanceVectorList (snd (showrt_loop (MaxHop ex_router) (rtrTable ex_router)))"
    by blast
  moreover
  from link_event_forces_report [of ex_learned addr_A 0 True ex_down "[(LinkDownMsg, addr_A)]"] h2
  have "fst (showrt ex_down) =
      DistanceVectorList (snd (showrt_loop (MaxHop ex_down) (rtrTable ex_down)))"
    by blast
  ultimately show ?thesis using h1 h2 t st r1 r2 by simp
qed

section \<open>Poison reverse\<close>

text \<open>
  What the inner loop of \<^verbatim>\<open>__sendRtrTable\<close> leaves in the copy: the entry of a
  destination is given the cost \<open>M + 1\<close> when the loop has met a route to it, other than
  the route to \<open>nh\<close> itself, whose next hop is \<open>nh\<close>.
\<close>

lemma map_of_poison_loop:
  "map_of (poison_loop M nh es rtrtable) k =
     (if k \<noteq> nh \<and> (\<exists>r. (k, r) \<in> set es \<and> nextHop r = nh)
      then map_option (\<lambda>r. r\<lparr>cost := M + 1\<rparr>) (map_of rtrtable k)
      else map_of rtrtable k)"
proof (induction es arbitrary: rtrtable)
  case Nil
  then show ?case by simp
next
  case (Cons e es)
  obtain d r where e: "e = (d, r)" by (cases e)
  show ?case
    by (auto simp: Cons.IH e map_of_map_entry split: option.splits)
qed

lemma keys_map_entry: "map fst (AList.map_entry k f al) = map fst al"
  by (induction al) auto

lemma keys_poison_loop: "map fst (poison_loop M nh es rtrtable) = map fst rtrtable"
  by (induction es arbitrary: rtrtable) (simp_all add: keys_map_entry)

text \<open>
  Claim C2.  The routing table is a dictionary, so its keys are distinct.  With poison
  reverse enabled, the table built for the neighbor \<open>T\<close> has the destinations of the
  routing table, in its order; a destination other than \<open>T\<close> whose route has the next hop
  \<open>T\<close> is given the cost \<open>MaxHop + 1\<close>; the destination \<open>T\<close> keeps its stored route; and
  every destination whose route has another next hop keeps its stored route.  With poison
  reverse disabled the table built is the routing table itself.
\<close>

theorem poison_reverse_vector:
  assumes "distinct (map fst (rtrTable s))"
  shows "(PoisonReverse s \<longrightarrow>
            map fst (sendRtrTable_rtrtable s T) = map fst (rtrTable s) \<and>
            (\<forall>d r. map_of (rtrTable s) d = Some r \<and> d \<noteq> T \<and> nextHop r = T \<longrightarrow>
                map_of (sendRtrTable_rtrtable s T) d = Some (r\<lparr>cost := MaxHop s + 1\<rparr>)) \<and>
            (\<forall>r. map_of (rtrTable s) T = Some r \<longrightarrow>
                map_of (sendRtrTable_rtrtable s T) T = Some r) \<and>
            (\<forall>d r. map_of (rtrTable s) d = Some r \<and> nextHop r \<noteq> T \<longrightarrow>
                map_of (sendRtrTable_rtrtable s T) d = Some r)) \<and>
         (\<not> PoisonReverse s \<longrightarrow> sendRtrTable_rtrtable s T = rtrTable s)"
proof -
  have uniq: "r' = r" if "map_of (rtrTable s) d = Some r" and "(d, r') \<in> set (rtrTable s)"
    for d r r'
    using that assms by simp
  have poisoned: "map_of (sendRtrTable_rtrtable s T) d = Some (r\<lparr>cost := MaxHop s + 1\<rparr>)"
    if "PoisonReverse s" and "map_of (rtrTable s) d = Some r" and "d \<noteq> T" and "nextHop r = T"
    for d r
  proof -
    from that(2) have "(d, r) \<in> set (rtrTable s)" by (rule map_of_SomeD)
    with that show ?thesis
      by (auto simp: sendRtrTable_rtrtable_def Let_def map_of_poison_loop)
  qed
  have self: "map_of (sendRtrTable_rtrtable s T) T = Some r"
    if "PoisonReverse s" and "map_of (rtrTable s) T = Some r" for r
    using that by (simp add: sendRtrTable_rtrtable_def Let_def map_of_poison_loop)
  have other: "map_of (sendRtrTable_rtrtable s T) d = Some r"
    if "PoisonReverse s" and "map_of (rtrTable s) d = Some r" and "nextHop r \<noteq> T" for d r
  proof -
    have "\<not> (\<exists>r'. (d, r') \<in> set (rtrTable s) \<and> nextHop r' = T)"
      using uniq [OF that(2)] that(3) by blast
    with that show ?thesis
      by (auto simp: sendRtrTable_rtrtable_def Let_def map_of_poison_loop)
  qed
  have keys: "map fst (sendRtrTable_rtrtable s T) = map fst (rtrTable s)"
    by (simp add: sendRtrTable_rtrtable_def Let_def keys_poison_loop)
  have off: "\<not> PoisonReverse s \<Longrightarrow> sendRtrTable_rtrtable s T = rtrTable s"
    by (simp add: sendRtrTable_rtrtable_def Let_def)
  from poisoned self other keys off show ?thesis by blast
qed

text \<open>
  Router \<open>E\<close> with the route to \<open>C\<close> through \<open>A\<close>: the table built for \<open>A\<close> gives \<open>C\<close> the
  cost 16 and leaves \<open>A\<close> at cost 2 and \<open>B\<close> at cost 5.  With poison reverse switched off
  the table built is the routing table.
\<close>

theorem poison_reverse_vector_witness:
  "distinct (map fst (rtrTable ex_learned)) \<and> PoisonReverse ex_learned \<and>
   sendRtrTable_rtrtable ex_learned ''A'' =
     [(''A'', \<lparr>nextHop = ''A'', cost = 2\<rparr>), (''B'', \<lparr>nextHop = ''B'', cost = 5\<rparr>),
      (''C'', \<lparr>nextHop = ''A'', cost = 16\<rparr>)] \<and>
   map_of (sendRtrTable_rtrtable ex_learned ''A'') ''C'' = Some \<lparr>nextHop = ''A'', cost = 16\<rparr> \<and>
   map_of (sendRtrTable_rtrtable ex_learned ''A'') ''A'' = Some \<lparr>nextHop = ''A'', cost = 2\<rparr> \<and>
   map_of (sendRtrTable_rtrtable ex_learned ''A'') ''B'' = Some \<lparr>nextHop = ''B'', cost = 5\<rparr> \<and>
   sendRtrTable_rtrtable (setPoisonReverse ex_learned False) ''A'' = rtrTable ex_learned"
proof -
  have h: "distinct (map fst (rtrTable ex_learned))"
    by (simp add: ex_defs)
  have h': "distinct (map fst (rtrTable (setPoisonReverse ex_learned False)))"
    by (simp add: ex_defs setPoisonReverse_def)
  have p: "PoisonReverse ex_learned" "\<not> PoisonReverse (setPoisonReverse ex_learned False)"
    by (simp_all add: ex_defs setPoisonReverse_def)
  have m: "MaxHop ex_learned = 15"
    by (simp add: ex_defs)
  have t: "map_of (rtrTable ex_learned) ''C'' = Some \<lparr>nextHop = ''A'', cost = 5\<rparr>"
    "map_of (rtrTable ex_learned) ''A'' = Some \<lparr>nextHop = ''A'', cost = 2\<rparr>"
    "map_of (rtrTable ex_learned) ''B'' = Some \<lparr>nextHop = ''B'', cost = 5\<rparr>"
    "rtrTable (setPoisonReverse ex_learned False) = rtrTable ex_learned"
    by (simp_all add: ex_defs setPoisonReverse_def)
  have v: "sendRtrTable_rtrtable ex_learned ''A'' =
     [(''A'', \<lparr>nextHop = ''A'', cost = 2\<rparr>), (''B'', \<lparr>nextHop = ''B'', cost = 5\<rparr>),
      (''C'', \<lparr>nextHop = ''A'', cost = 16\<rparr>)]"
    by (simp add: sendRtrTable_rtrtable_def Let_def ex_defs)
  from poison_reverse_vector [OF h, of "''A''"] p(1)
  have a1: "\<forall>d r. map_of (rtrTable ex_learned) d = Some r \<and> d \<noteq> ''A'' \<and> nextHop r = ''A'' \<longrightarrow>
      map_of (sendRtrTable_rtrtable ex_learned ''A'') d = Some (r\<lparr>cost := MaxHop ex_learned + 1\<rparr>)"
    and a2: "\<forall>r. map_of (rtrTable ex_learned) ''A'' = Some r \<longrightarrow>
      map_of (sendRtrTable_rtrtable ex_learned ''A'') ''A'' = Some r"
    and a3: "\<forall>d r. map_of (rtrTable ex_learned) d = Some r \<and> nextHop r \<noteq> ''A'' \<longrightarrow>
      map_of (sendRtrTable_rtrtable ex_learned ''A'') d = Some r"
    by blast+
  from a1 [rule_format, of "''C''" "\<lparr>nextHop = ''A'', cost = 5\<rparr>"] t(1) m
  have "map_of (sendRtrTable_rtrtable ex_learned ''A'') ''C'' = Some \<lparr>nextHop = ''A'', cost = 16\<rparr>"
    by simp
  moreover from a2 [rule_format, of "\<lparr>nextHop = ''A'', cost = 2\<rparr>"] t(2)
  have "map_of (sendRtrTable_rtrtable ex_learned ''A'') ''A'' = Some \<lparr>nextHop = ''A'', cost = 2\<rparr>"
    by simp
  moreover from a3 [rule_format, of "''B''" "\<lparr>nextHop = ''B'', cost = 5\<rparr>"] t(3)
  have "map_of (sendRtrTable_rtrtable ex_learned ''A'') ''B'' = Some \<lparr>nextHop = ''B'', cost = 5\<rparr>"
    by simp
  moreover from poison_reverse_vector [OF h', of "''A''"] p(2) t(4)
  have "sendRtrTable_rtrtable (setPoisonReverse ex_learned False) ''A'' = rtrTable ex_learned"
    by simp
  ultimately show ?thesis using h p(1) v by simp
qed

text \<open>Each neighbor is sent the table built for it, as far as the loop gets.\<close>

lemma sendRtrTable_loop_messages:
  "map fst (fst (sendRtrTable_loop s nhs)) =
     map (\<lambda>nh. VectorMsg (sendRtrTable_rtrtable s nh))
       (take (length (fst (sendRtrTable_loop s nhs))) nhs)"
  by (induction nhs) (auto simp: Let_def split: option.splits)

lemma sendRtrTable_loop_complete:
  "snd (sendRtrTable_loop s nhs) = None \<Longrightarrow>
   length (fst (sendRtrTable_loop s nhs)) = length nhs"
  by (induction nhs) (auto simp: Let_def split: option.splits)

lemma sendRtrTable_messages:
  assumes "snd (sendRtrTable s) = None"
  shows "map fst (fst (sendRtrTable s)) =
         map (\<lambda>nh. VectorMsg (sendRtrTable_rtrtable s nh)) (map fst (neighbor s))"
proof -
  from assms have "length (fst (sendRtrTable_loop s (map fst (neighbor s)))) =
      length (map fst (neighbor s))"
    unfolding sendRtrTable_def by (rule sendRtrTable_loop_complete)
  with sendRtrTable_loop_messages [of s "map fst (neighbor s)"] show ?thesis
    by (simp add: sendRtrTable_def)
qed

section \<open>The snapshot in the states of a run\<close>

lemma keys_showrt_loop: "map fst (fst (showrt_loop M t)) = map fst t"
  by (induction t) (simp_all add: Let_def)

lemma showrt_loop_table:
  "fst (showrt_loop M t) =
     map (\<lambda>e. (fst e, if cost (snd e) > M then (snd e)\<lparr>cost := M + 1\<rparr> else snd e)) t"
  by (induction t) (simp_all add: Let_def)

lemma showrt_loop_capped: "list_all (\<lambda>e. cost (snd e) \<le> M + 1) (fst (showrt_loop M t))"
  by (induction t) (simp_all add: Let_def)

text \<open>On a table without a cost above \<open>M + 1\<close> the loop of the report changes nothing.\<close>

lemma showrt_loop_id:
  "list_all (\<lambda>e. cost (snd e) \<le> M + 1) t \<Longrightarrow> fst (showrt_loop M t) = t"
proof (induction t)
  case Nil
  then show ?case by simp
next
  case (Cons e t)
  obtain d r where e: "e = (d, r)" by (cases e)
  have "r\<lparr>cost := M + 1\<rparr> = r" if "cost r > M"
  proof -
    from that Cons.prems e have "cost r = M + 1" by simp
    then show ?thesis by (metis route.surjective route.update_convs(2))
  qed
  with Cons e show ?case by (simp add: Let_def)
qed

lemma prefix_update_keys:
  "prefix xs (map fst al) \<Longrightarrow> prefix xs (map fst (AList.update k v al))"
  by (simp add: update_keys)

lemma distinct_fold_update:
  "distinct (map fst acc) \<Longrightarrow>
   distinct (map fst (fold (\<lambda>(k, i) acc. AList.update k (f k i) acc) xs acc))"
  by (induction xs arbitrary: acc) (auto simp: distinct_update)

lemma init_snapshot_inv:
  "Router_init router_address nbr a2n M = Inr s \<Longrightarrow> snapshot_inv s"
proof -
  assume a: "Router_init router_address nbr a2n M = Inr s"
  have "distinct (map fst (fold (\<lambda>(dest, info) acc.
      AList.update dest \<lparr>nextHop = dest, cost = nb_cost info\<rparr> acc) nbr []))"
    using distinct_fold_update [of "[]" "\<lambda>dest info. \<lparr>nextHop = dest, cost = nb_cost info\<rparr>" nbr]
    by simp
  with a show ?thesis
    by (auto simp: Router_init_def snapshot_inv_def split: option.splits)
qed

lemma body_snapshot_inv:
  assumes "snapshot_inv s" and "updatertrTable_body From e s = Inr s'"
  shows "snapshot_inv s'"
proof -
  from assms(2) have "s' = s \<or> (\<exists>v. s' = s\<lparr>rtrTable := AList.update (fst e) v (rtrTable s)\<rparr>)"
    by (auto simp: updatertrTable_body_def Let_def split: if_splits option.splits)
  then show ?thesis
  proof
    assume "s' = s"
    with assms(1) show ?thesis by simp
  next
    assume "\<exists>v. s' = s\<lparr>rtrTable := AList.update (fst e) v (rtrTable s)\<rparr>"
    then obtain v where "s' = s\<lparr>rtrTable := AList.update (fst e) v (rtrTable s)\<rparr>" ..
    with assms(1) show ?thesis
      by (auto simp: snapshot_inv_def distinct_update prefix_update_keys split: option.splits)
  qed
qed

lemma loop_snapshot_inv:
  "snapshot_inv s \<Longrightarrow> updatertrTable_loop From es s = Inr s' \<Longrightarrow> snapshot_inv s'"
proof (induction es arbitrary: s)
  case Nil
  then show ?case by simp
next
  case (Cons e es)
  from Cons.prems(2) [unfolded loop_Cons_Inr] obtain s1
    where b: "updatertrTable_body From e s = Inr s1"
      and l: "updatertrTable_loop From es s1 = Inr s'"
    by blast
  from body_snapshot_inv [OF Cons.prems(1) b] l show ?case by (rule Cons.IH)
qed

lemma showrt_snapshot_inv:
  assumes "snapshot_inv s"
  shows "snapshot_inv (snd (showrt s))"
proof (cases "str_eq (rtrTable s) (rtrTable_history s)")
  case False
  with assms show ?thesis
    by (simp add: showrt_def Let_def snapshot_inv_def keys_showrt_loop showrt_loop_capped)
next
  case True
  with assms show ?thesis
    by (auto simp: showrt_def Let_def snapshot_inv_def keys_showrt_loop str_eq_def)
qed

lemma step_snapshot_inv:
  assumes "snapshot_inv s" and "engine_step s ev = Inr s'"
  shows "snapshot_inv s'"
proof (cases ev)
  case (LinkChange a dist needSend)
  with assms show ?thesis
    by (auto simp: engine_step_def linkChange_def snapshot_inv_def distinct_update
        split: option.splits)
next
  case (LinkDown a needSend)
  with assms show ?thesis
    by (auto simp: engine_step_def linkDown_def snapshot_inv_def distinct_update
        split: option.splits if_splits)
next
  case (UpdatertrTable a rtrtable)
  with assms(2) obtain From where "updatertrTable_loop From rtrtable s = Inr s'"
    by (auto simp: engine_step_def updatertrTable_def split: option.splits)
  with assms(1) show ?thesis by (rule loop_snapshot_inv)
next
  case Showrt
  with assms showrt_snapshot_inv [of s] show ?thesis
    by (simp add: engine_step_def)
next
  case (SetPoisonReverse b)
  with assms show ?thesis
    by (auto simp: engine_step_def setPoisonReverse_def snapshot_inv_def split: option.splits)
qed

lemma run_snapshot_inv:
  "snapshot_inv s \<Longrightarrow> engine_run s evs = Inr s' \<Longrightarrow> snapshot_inv s'"
proof (induction evs arbitrary: s)
  case Nil
  then show ?case by simp
next
  case (Cons ev evs)
  from Cons.prems(2) obtain s1 where st: "engine_step s ev = Inr s1"
    and r: "engine_run s1 evs = Inr s'"
    by (auto split: sum.splits)
  from step_snapshot_inv [OF Cons.prems(1) st] r show ?case by (rule Cons.IH)
qed

text \<open>
  Two tables with the same items are the same list when the keys of the one are distinct
  and the keys of the other are the first of them, in order.
\<close>

lemma same_keys_same_table:
  "distinct (map fst t) \<Longrightarrow> map fst h = map fst t \<Longrightarrow> set h \<subseteq> set t \<Longrightarrow> h = t"
proof (induction t arbitrary: h)
  case Nil
  then show ?case by simp
next
  case (Cons y ts)
  from Cons.prems(2) obtain x hs where h: "h = x # hs" and k: "fst x = fst y"
    and ks: "map fst hs = map fst ts"
    by (cases h) auto
  from Cons.prems(1) have ny: "fst y \<notin> fst ` set ts" and d: "distinct (map fst ts)"
    by auto
  from Cons.prems(3) h have "x = y \<or> x \<in> set ts" by auto
  moreover have "x \<notin> set ts"
  proof
    assume "x \<in> set ts"
    then have "fst x \<in> fst ` set ts" by (rule imageI)
    with k ny show False by simp
  qed
  ultimately have xy: "x = y" by blast
  have "set hs \<subseteq> set ts"
  proof
    fix z assume z: "z \<in> set hs"
    with Cons.prems(3) h have zz: "z = y \<or> z \<in> set ts" by auto
    from z have "fst z \<in> fst ` set hs" by (rule imageI)
    then have "fst z \<in> set (map fst hs)" by simp
    with ks have "fst z \<in> set (map fst ts)" by simp
    with ny have "z \<noteq> y" by auto
    with zz show "z \<in> set ts" by simp
  qed
  from Cons.IH [OF d ks this] xy h show ?case by simp
qed

lemma same_items_same_table:
  assumes "distinct (map fst t)" and "prefix (map fst h) (map fst t)" and "set h = set t"
  shows "h = t"
proof -
  from assms(2) obtain zs where zs: "map fst t = map fst h @ zs"
    unfolding prefix_def by blast
  have keq: "set (map fst h) = set (map fst t)"
    unfolding set_map assms(3) ..
  have "set (map fst t) = set (map fst h) \<union> set zs"
    unfolding zs set_append ..
  with keq have sub: "set zs \<subseteq> set (map fst h)" by blast
  from assms(1) have "distinct (map fst h @ zs)"
    unfolding zs .
  then have dj: "set (map fst h) \<inter> set zs = {}"
    unfolding distinct_append by blast
  have disjoint_subset: "B = {}" if "B \<subseteq> A" and "A \<inter> B = {}" for A B :: "'a set"
    using that by blast
  from sub dj have "set zs = {}" by (rule disjoint_subset)
  then have "zs = []" unfolding set_empty .
  with zs have ks: "map fst h = map fst t" by simp
  from assms(3) have sub: "set h \<subseteq> set t" by simp
  from assms(1) ks sub show ?thesis by (rule same_keys_same_table)
qed

section \<open>The convergence test\<close>

text \<open>
  Claim C6.  In every state that a run of the router reaches from its construction, the
  tick finds the table stable exactly when there is a snapshot and it has the same items
  (destination, next hop, cost) as the routing table, taken as sets.  The test of the code
  compares the two renderings, which follow the order of insertion; the snapshot of a
  state of a run always has its destinations in the order of the table, so the order
  makes no difference.
\<close>

theorem stable_iff_same_items:
  assumes "Router_init router_address nbr a2n M = Inr s0"
    and "engine_run s0 evs = Inr s"
  shows "stable (fst (showrt s)) \<longleftrightarrow>
         (\<exists>h. rtrTable_history s = Some h \<and> set h = set (rtrTable s))"
proof -
  from assms have inv: "snapshot_inv s"
    by (blast intro: init_snapshot_inv run_snapshot_inv)
  have st: "stable (fst (showrt s)) \<longleftrightarrow> rtrTable_history s = Some (rtrTable s)"
    by (simp add: showrt_def str_eq_def Let_def)
  show ?thesis
  proof
    assume "stable (fst (showrt s))"
    with st show "\<exists>h. rtrTable_history s = Some h \<and> set h = set (rtrTable s)" by simp
  next
    assume "\<exists>h. rtrTable_history s = Some h \<and> set h = set (rtrTable s)"
    then obtain h where h: "rtrTable_history s = Some h" and eq: "set h = set (rtrTable s)"
      by blast
    from inv h have "distinct (map fst (rtrTable s))"
      and "prefix (map fst h) (map fst (rtrTable s))"
      by (simp_all add: snapshot_inv_def)
    from this eq have "h = rtrTable s" by (rule same_items_same_table)
    with h st show "stable (fst (showrt s))" by simp
  qed
qed

text \<open>
  Router \<open>E\<close> learns the route to \<open>C\<close> and the timer ticks: there is a snapshot with the
  three routes, and the next tick finds the table stable.  Before the first tick there is
  no snapshot, and the tick finds the table changed.
\<close>

theorem stable_iff_same_items_witness:
  "Router_init addr_E ex_neighbor addr2rName_table 15 = Inr ex_router \<and>
   engine_run ex_router [UpdatertrTable addr_A [(''C'', \<lparr>nextHop = ''C'', cost = 3\<rparr>)], Showrt] =
     Inr (ex_learned\<lparr>rtrTable_history := Some (rtrTable ex_learned)\<rparr>) \<and>
   stable (fst (showrt (ex_learned\<lparr>rtrTable_history := Some (rtrTable ex_learned)\<rparr>))) \<and>
   engine_run ex_router [UpdatertrTable addr_A [(''C'', \<lparr>nextHop = ''C'', cost = 3\<rparr>)]] =
     Inr ex_learned \<and>
   \<not> stable (fst (showrt ex_learned))"
proof -
  have r1: "engine_run ex_router
      [UpdatertrTable addr_A [(''C'', \<lparr>nextHop = ''C'', cost = 3\<rparr>)], Showrt] =
      Inr (ex_learned\<lparr>rtrTable_history := Some (rtrTable ex_learned)\<rparr>)"
    by (simp add: engine_step_def ex_learned_reached)
       (simp add: showrt_def str_eq_def Let_def ex_defs)
  have r2: "engine_run ex_router
      [UpdatertrTable addr_A [(''C'', \<lparr>nextHop = ''C'', cost = 3\<rparr>)]] = Inr ex_learned"
    by (simp add: engine_step_def ex_learned_reached)
  have h1: "\<exists>h. rtrTable_history (ex_learned\<lparr>rtrTable_history := Some (rtrTable ex_learned)\<rparr>) =
        Some h \<and>
      set h = set (rtrTable (ex_learned\<lparr>rtrTable_history := Some (rtrTable ex_learned)\<rparr>))"
    by simp
  have h2: "\<not> (\<exists>h. rtrTable_history ex_learned = Some h \<and> set h = set (rtrTable ex_learned))"
    by (simp add: ex_defs)
  from stable_iff_same_items [OF ex_router_init r1] h1
  have "stable (fst (showrt (ex_learned\<lparr>rtrTable_history := Some (rtrTable ex_learned)\<rparr>)))"
    by blast
  moreover from stable_iff_same_items [OF ex_router_init r2] h2
  have "\<not> stable (fst (showrt ex_learned))"
    by blast
  ultimately show ?thesis using ex_router_init r1 r2 by blast
qed

section \<open>The report writes to the table\<close>

text \<open>
  Claim C10.  In every state that a run of the router reaches from its construction, a
  tick leaves in the live table, for each destination, the stored route with a cost above
  \<open>MaxHop\<close> replaced by \<open>MaxHop + 1\<close>; so after the tick no stored cost is above
  \<open>MaxHop + 1\<close>.  When the tick finds the table changed, the snapshot it takes is the table
  so written; and a snapshot holds no cost above \<open>MaxHop + 1\<close>.
\<close>

theorem showrt_caps_costs:
  assumes "Router_init router_address nbr a2n M = Inr s0"
    and "engine_run s0 evs = Inr s"
  shows "rtrTable (snd (showrt s)) =
           map (\<lambda>e. (fst e, if cost (snd e) > MaxHop s then (snd e)\<lparr>cost := MaxHop s + 1\<rparr>
                             else snd e)) (rtrTable s) \<and>
         list_all (\<lambda>e. cost (snd e) \<le> MaxHop s + 1) (rtrTable (snd (showrt s))) \<and>
         (\<not> stable (fst (showrt s)) \<longrightarrow>
            rtrTable_history (snd (showrt s)) = Some (rtrTable (snd (showrt s)))) \<and>
         (\<forall>h. rtrTable_history (snd (showrt s)) = Some h \<longrightarrow>
            list_all (\<lambda>e. cost (snd e) \<le> MaxHop s + 1) h)"
proof -
  from assms have inv: "snapshot_inv s"
    by (blast intro: init_snapshot_inv run_snapshot_inv)
  have t: "rtrTable (snd (showrt s)) = fst (showrt_loop (MaxHop s) (rtrTable s))"
  proof (cases "str_eq (rtrTable s) (rtrTable_history s) \<and> convergedPrintTimes s \<noteq> 0")
    case True
    then have "rtrTable_history s = Some (rtrTable s)" by (simp add: str_eq_def)
    with inv have "list_all (\<lambda>e. cost (snd e) \<le> MaxHop s + 1) (rtrTable s)"
      by (simp add: snapshot_inv_def)
    then have "fst (showrt_loop (MaxHop s) (rtrTable s)) = rtrTable s"
      by (rule showrt_loop_id)
    with True show ?thesis by (simp add: showrt_def)
  next
    case False
    then show ?thesis by (auto simp: showrt_def Let_def)
  qed
  have c1: "rtrTable (snd (showrt s)) =
      map (\<lambda>e. (fst e, if cost (snd e) > MaxHop s then (snd e)\<lparr>cost := MaxHop s + 1\<rparr>
                        else snd e)) (rtrTable s)"
    unfolding t by (rule showrt_loop_table)
  have c2: "list_all (\<lambda>e. cost (snd e) \<le> MaxHop s + 1) (rtrTable (snd (showrt s)))"
    unfolding t by (rule showrt_loop_capped)
  have c3: "\<not> stable (fst (showrt s)) \<longrightarrow>
      rtrTable_history (snd (showrt s)) = Some (rtrTable (snd (showrt s)))"
    by (simp add: showrt_def Let_def)
  have "snapshot_inv (snd (showrt s))" using inv by (rule showrt_snapshot_inv)
  moreover have "MaxHop (snd (showrt s)) = MaxHop s" by (simp add: showrt_def Let_def)
  ultimately have c4: "\<forall>h. rtrTable_history (snd (showrt s)) = Some h \<longrightarrow>
      list_all (\<lambda>e. cost (snd e) \<le> MaxHop s + 1) h"
    by (auto simp: snapshot_inv_def)
  from c1 c2 c3 c4 show ?thesis by blast
qed

text \<open>
  The link from \<open>E\<close> to \<open>B\<close> is given the cost 100, which the table stores; the next tick
  writes 16 in its place, so the tick has changed the table, and the snapshot holds 16.
\<close>

theorem showrt_caps_costs_witness:
  "Router_init addr_E ex_neighbor addr2rName_table 15 = Inr ex_router \<and>
   engine_run ex_router [LinkChange addr_B 100 False] = Inr ex_far \<and>
   map_of (rtrTable ex_far) ''B'' = Some \<lparr>nextHop = ''B'', cost = 100\<rparr> \<and>
   rtrTable (snd (showrt ex_far)) =
     [(''A'', \<lparr>nextHop = ''A'', cost = 2\<rparr>), (''B'', \<lparr>nextHop = ''B'', cost = 16\<rparr>)] \<and>
   rtrTable (snd (showrt ex_far)) \<noteq> rtrTable ex_far \<and>
   rtrTable_history (snd (showrt ex_far)) =
     Some [(''A'', \<lparr>nextHop = ''A'', cost = 2\<rparr>), (''B'', \<lparr>nextHop = ''B'', cost = 16\<rparr>)]"
proof -
  have r: "engine_run ex_router [LinkChange addr_B 100 False] = Inr ex_far"
    by (simp add: engine_step_def ex_far_reached)
  have t: "rtrTable ex_far =
      [(''A'', \<lparr>nextHop = ''A'', cost = 2\<rparr>), (''B'', \<lparr>nextHop = ''B'', cost = 100\<rparr>)]"
    and m: "MaxHop ex_far = 15"
    by (simp_all add: ex_defs)
  have ns: "\<not> stable (fst (showrt ex_far))"
    by (simp add: showrt_def str_eq_def Let_def ex_defs)
  from showrt_caps_costs [OF ex_router_init r] ns
  have a: "rtrTable (snd (showrt ex_far)) =
      map (\<lambda>e. (fst e, if cost (snd e) > MaxHop ex_far
                        then (snd e)\<lparr>cost := MaxHop ex_far + 1\<rparr> else snd e)) (rtrTable ex_far)"
    and b: "rtrTable_history (snd (showrt ex_far)) = Some (rtrTable (snd (showrt ex_far)))"
    by blast+
  from a have a': "rtrTable (snd (showrt ex_far)) =
      [(''A'', \<lparr>nextHop = ''A'', cost = 2\<rparr>), (''B'', \<lparr>nextHop = ''B'', cost = 16\<rparr>)]"
    by (simp add: t m)
  with b t ex_router_init r show ?thesis by simp
qed

section \<open>The range of the stored costs\<close>

lemma list_all_update:
  "P (k, v) \<Longrightarrow> list_all P al \<Longrightarrow> list_all P (AList.update k v al)"
  by (induction al) auto

lemma list_all_delete: "list_all P al \<Longrightarrow> list_all P (AList.delete k al)"
  by (induction al) auto

lemma neighCost_lookup_nonneg:
  "neighCost_nonneg s \<Longrightarrow> map_of (neighCost s) F = Some c \<Longrightarrow> 0 \<le> c"
proof -
  assume n: "neighCost_nonneg s" and l: "map_of (neighCost s) F = Some c"
  from l have "(F, c) \<in> set (neighCost s)" by (rule map_of_SomeD)
  with n show ?thesis by (auto simp: neighCost_nonneg_def list_all_iff)
qed

text \<open>A round of the update loop writes one route, with the capped cost, or nothing.\<close>

lemma body_cases:
  assumes "updatertrTable_body From e s = Inr s'"
  shows "s' = s \<or>
         (\<exists>c v. map_of (neighCost s) From = Some c \<and>
                cost v = min (c + cost (snd e)) (MaxHop s + 1) \<and>
                s' = s\<lparr>rtrTable := AList.update (fst e) v (rtrTable s)\<rparr>)"
proof (cases "fst e = name s")
  case True
  with assms show ?thesis by (simp add: updatertrTable_body_def Let_def)
next
  case own: False
  show ?thesis
  proof (cases "map_of (neighCost s) From")
    case None
    with assms own show ?thesis
      by (simp add: updatertrTable_body_def Let_def split: option.splits if_splits)
  next
    case link: (Some c)
    let ?new = "\<lparr>nextHop = From, cost = min (c + cost (snd e)) (MaxHop s + 1)\<rparr>"
    show ?thesis
    proof (cases "map_of (rtrTable s) (fst e)")
      case None
      with assms own link
      have "s' = s\<lparr>rtrTable := AList.update (fst e) ?new (rtrTable s)\<rparr>"
        by (simp add: updatertrTable_body_def Let_def)
      with link have "map_of (neighCost s) From = Some c \<and>
          cost ?new = min (c + cost (snd e)) (MaxHop s + 1) \<and>
          s' = s\<lparr>rtrTable := AList.update (fst e) ?new (rtrTable s)\<rparr>"
        by simp
      then show ?thesis by blast
    next
      case old: (Some r)
      let ?upd = "r\<lparr>cost := min (c + cost (snd e)) (MaxHop s + 1)\<rparr>"
      show ?thesis
      proof (cases "nextHop r = From")
        case True
        with assms own link old
        have "s' = s\<lparr>rtrTable := AList.update (fst e) ?upd (rtrTable s)\<rparr>"
          by (simp add: updatertrTable_body_def Let_def)
        with link have "map_of (neighCost s) From = Some c \<and>
            cost ?upd = min (c + cost (snd e)) (MaxHop s + 1) \<and>
            s' = s\<lparr>rtrTable := AList.update (fst e) ?upd (rtrTable s)\<rparr>"
          by simp
        then show ?thesis by blast
      next
        case other: False
        show ?thesis
        proof (cases "c + cost (snd e) < cost r")
          case True
          with assms own link old other
          have "s' = s\<lparr>rtrTable := AList.update (fst e) ?new (rtrTable s)\<rparr>"
            by (simp add: updatertrTable_body_def Let_def)
          with link have "map_of (neighCost s) From = Some c \<and>
              cost ?new = min (c + cost (snd e)) (MaxHop s + 1) \<and>
              s' = s\<lparr>rtrTable := AList.update (fst e) ?new (rtrTable s)\<rparr>"
            by simp
          then show ?thesis by blast
        next
          case False
          with assms own link old other show ?thesis
            by (simp add: updatertrTable_body_def Let_def)
        qed
      qed
    qed
  qed
qed

text \<open>
  The cost written is in range when the link cost and the advertised cost are not
  negative.
\<close>

lemma body_range:
  assumes "0 \<le> MaxHop s" and "cost_range_inv s" and "neighCost_nonneg s"
    and "0 \<le> cost (snd e)" and "updatertrTable_body From e s = Inr s'"
  shows "cost_range_inv s'"
proof -
  from body_cases [OF assms(5)] show ?thesis
  proof
    assume "s' = s"
    with assms(2) show ?thesis by simp
  next
    assume "\<exists>c v. map_of (neighCost s) From = Some c \<and>
        cost v = min (c + cost (snd e)) (MaxHop s + 1) \<and>
        s' = s\<lparr>rtrTable := AList.update (fst e) v (rtrTable s)\<rparr>"
    then obtain c v where c: "map_of (neighCost s) From = Some c"
      and v: "cost v = min (c + cost (snd e)) (MaxHop s + 1)"
      and s': "s' = s\<lparr>rtrTable := AList.update (fst e) v (rtrTable s)\<rparr>"
      by blast
    from neighCost_lookup_nonneg [OF assms(3) c] have "0 \<le> c" .
    with assms(1,4) v have "0 \<le> cost v \<and> cost v \<le> MaxHop s + 1" by simp
    with assms(2) show ?thesis
      unfolding s' cost_range_inv_def by (simp add: list_all_update)
  qed
qed

lemma loop_range:
  assumes "0 \<le> MaxHop s" and "cost_range_inv s" and "neighCost_nonneg s"
    and "list_all (\<lambda>e. 0 \<le> cost (snd e)) es" and "updatertrTable_loop From es s = Inr s'"
  shows "cost_range_inv s'"
  using assms
proof (induction es arbitrary: s)
  case Nil
  then show ?case by simp
next
  case (Cons e es)
  from Cons.prems(5) [unfolded loop_Cons_Inr] obtain s1
    where b: "updatertrTable_body From e s = Inr s1"
      and l: "updatertrTable_loop From es s1 = Inr s'"
    by blast
  from Cons.prems(4) have e: "0 \<le> cost (snd e)" and es: "list_all (\<lambda>e. 0 \<le> cost (snd e)) es"
    by simp_all
  have f: "MaxHop s1 = MaxHop s" "neighCost s1 = neighCost s"
    using frame_fields [OF body_frame [OF b]] by simp_all
  have r1: "cost_range_inv s1"
    using Cons.prems(1,2,3) e b by (rule body_range)
  from f Cons.prems(1,3) have "0 \<le> MaxHop s1" and "neighCost_nonneg s1"
    by (simp_all add: neighCost_nonneg_def)
  from this(1) r1 this(2) es l show ?case by (rule Cons.IH)
qed

lemma showrt_range:
  assumes "cost_range_inv s"
  shows "rtrTable (snd (showrt s)) = rtrTable s"
proof -
  from assms have "list_all (\<lambda>e. cost (snd e) \<le> MaxHop s + 1) (rtrTable s)"
    by (auto simp: cost_range_inv_def list_all_iff)
  then have "fst (showrt_loop (MaxHop s) (rtrTable s)) = rtrTable s"
    by (rule showrt_loop_id)
  then show ?thesis by (simp add: showrt_def Let_def)
qed

lemma step_range:
  assumes "0 \<le> MaxHop s" and "cost_range_inv s" and "neighCost_nonneg s"
    and "event_in_range (MaxHop s) ev" and "engine_step s ev = Inr s'"
  shows "MaxHop s' = MaxHop s \<and> cost_range_inv s' \<and> neighCost_nonneg s'"
proof (cases ev)
  case (LinkChange a dist needSend)
  with assms show ?thesis
    by (auto simp: engine_step_def linkChange_def cost_range_inv_def neighCost_nonneg_def
        list_all_update split: option.splits)
next
  case (LinkDown a needSend)
  with assms show ?thesis
    by (auto simp: engine_step_def linkDown_def cost_range_inv_def neighCost_nonneg_def
        list_all_update list_all_delete split: option.splits if_splits)
next
  case (UpdatertrTable a rtrtable)
  with assms(5) obtain From where l: "updatertrTable_loop From rtrtable s = Inr s'"
    by (auto simp: engine_step_def updatertrTable_def split: option.splits)
  from assms(4) UpdatertrTable have v: "list_all (\<lambda>e. 0 \<le> cost (snd e)) rtrtable"
    by simp
  have "cost_range_inv s'"
    using assms(1,2,3) v l by (rule loop_range)
  moreover have "MaxHop s' = MaxHop s" "neighCost s' = neighCost s"
    using frame_fields [OF loop_frame [OF l]] by simp_all
  ultimately show ?thesis using assms(3) by (simp add: neighCost_nonneg_def)
next
  case Showrt
  with assms(5) have s': "s' = snd (showrt s)" by (simp add: engine_step_def)
  have "MaxHop s' = MaxHop s" "neighCost s' = neighCost s"
    unfolding s' by (simp_all add: showrt_def Let_def)
  moreover have "rtrTable s' = rtrTable s"
    unfolding s' using assms(2) by (rule showrt_range)
  ultimately show ?thesis
    using assms(2,3) by (simp add: cost_range_inv_def neighCost_nonneg_def)
next
  case (SetPoisonReverse b)
  with assms show ?thesis
    by (auto simp: engine_step_def setPoisonReverse_def cost_range_inv_def
        neighCost_nonneg_def)
qed

lemma run_range:
  assumes "0 \<le> MaxHop s" and "cost_range_inv s" and "neighCost_nonneg s"
    and "list_all (event_in_range (MaxHop s)) evs" and "engine_run s evs = Inr s'"
  shows "MaxHop s' = MaxHop s \<and> cost_range_inv s' \<and> neighCost_nonneg s'"
  using assms
proof (induction evs arbitrary: s)
  case Nil
  then show ?case by simp
next
  case (Cons ev evs)
  from Cons.prems(5) obtain s1 where st: "engine_step s ev = Inr s1"
    and r: "engine_run s1 evs = Inr s'"
    by (auto split: sum.splits)
  from Cons.prems(4) have ev: "event_in_range (MaxHop s) ev"
    and evs: "list_all (event_in_range (MaxHop s)) evs"
    by simp_all
  from step_range [OF Cons.prems(1,2,3) ev st]
  have m: "MaxHop s1 = MaxHop s" and c: "cost_range_inv s1" and n: "neighCost_nonneg s1"
    by simp_all
  from m Cons.prems(1) evs have "0 \<le> MaxHop s1"
    and "list_all (event_in_range (MaxHop s1)) evs"
    by simp_all
  from Cons.IH [OF this(1) c n this(2) r] m show ?case by simp
qed

text \<open>
  Claim C7, as the code has it.  Let \<open>MaxHop\<close> be at least 0, let every stored cost be
  between 0 and \<open>MaxHop + 1\<close> and no neighbor cost be negative.  Then after every sequence
  of link changes with a cost between 0 and \<open>MaxHop + 1\<close>, of links going down, of vectors
  that advertise no negative cost, and of ticks, every stored cost is between 0 and
  \<open>MaxHop + 1\<close>.
\<close>

theorem cost_range_preserved:
  assumes "0 \<le> MaxHop s" and "cost_range_inv s" and "neighCost_nonneg s"
    and "list_all (event_in_range (MaxHop s)) evs" and "engine_run s evs = Inr s'"
  shows "cost_range_inv s'"
  using run_range [OF assms] by simp

text \<open>
  Router \<open>E\<close>: the link to \<open>B\<close> is given the cost 16, \<open>A\<close> advertises \<open>C\<close> at cost 20, the
  link to \<open>A\<close> goes down, and the timer ticks.
\<close>

theorem cost_range_preserved_witness:
  "0 \<le> MaxHop ex_router \<and> cost_range_inv ex_router \<and> neighCost_nonneg ex_router \<and>
   (\<exists>s'. engine_run ex_router
       [LinkChange addr_B 16 False,
        UpdatertrTable addr_A [(''C'', \<lparr>nextHop = ''C'', cost = 20\<rparr>)],
        LinkDown addr_A False, Showrt] = Inr s' \<and>
      cost_range_inv s')"
proof -
  have h1: "0 \<le> MaxHop ex_router"
    by (simp add: ex_defs)
  have h2: "cost_range_inv ex_router"
    by (simp add: cost_range_inv_def ex_defs)
  have h3: "neighCost_nonneg ex_router"
    by (simp add: neighCost_nonneg_def ex_defs)
  have h4: "list_all (event_in_range (MaxHop ex_router))
      [LinkChange addr_B 16 False,
       UpdatertrTable addr_A [(''C'', \<lparr>nextHop = ''C'', cost = 20\<rparr>)],
       LinkDown addr_A False, Showrt]"
    by (simp add: ex_defs)
  have "\<exists>s'. engine_run ex_router
      [LinkChange addr_B 16 False,
       UpdatertrTable addr_A [(''C'', \<lparr>nextHop = ''C'', cost = 20\<rparr>)],
       LinkDown addr_A False, Showrt] = Inr s'"
    by (simp add: engine_step_def linkChange_def linkDown_def updatertrTable_def
        updatertrTable_body_def Let_def ex_defs)
  then obtain s' where h5: "engine_run ex_router
      [LinkChange addr_B 16 False,
       UpdatertrTable addr_A [(''C'', \<lparr>nextHop = ''C'', cost = 20\<rparr>)],
       LinkDown addr_A False, Showrt] = Inr s'" ..
  from cost_range_preserved [OF h1 h2 h3 h4 h5] h5 h1 h2 h3 show ?thesis by blast
qed

text \<open>
  Claim C7 fails as it is stated: \<^const>\<open>linkChange\<close> stores the cost it is given.  On the
  router \<open>E\<close> as constructed, every cost is in range; a link change to the cost 100 leaves
  100 in the table, and one to the cost \<open>-1\<close> leaves \<open>-1\<close>.  A vector from \<open>A\<close> that
  advertises \<open>C\<close> at cost \<open>-50\<close> leaves the cost \<open>-48\<close>.
\<close>

theorem unclamped_link_cost_counterexample:
  "Router_init addr_E ex_neighbor addr2rName_table 15 = Inr ex_router \<and>
   cost_range_inv ex_router \<and>
   engine_run ex_router [LinkChange addr_B 100 False] = Inr ex_far \<and>
   map_of (rtrTable ex_far) ''B'' = Some \<lparr>nextHop = ''B'', cost = 100\<rparr> \<and>
   \<not> cost_range_inv ex_far \<and>
   map_sum id (\<lambda>s. map_of (rtrTable s) ''B'')
     (engine_run ex_router [LinkChange addr_B (- 1) False]) =
     Inr (Some \<lparr>nextHop = ''B'', cost = - 1\<rparr>) \<and>
   map_sum id (\<lambda>s. map_of (rtrTable s) ''C'')
     (engine_run ex_router [UpdatertrTable addr_A [(''C'', \<lparr>nextHop = ''C'', cost = - 50\<rparr>)]]) =
     Inr (Some \<lparr>nextHop = ''A'', cost = - 48\<rparr>)"
proof -
  have "cost_range_inv ex_router"
    by (simp add: cost_range_inv_def ex_defs)
  moreover have "engine_run ex_router [LinkChange addr_B 100 False] = Inr ex_far"
    by (simp add: engine_step_def ex_far_reached)
  moreover have "map_of (rtrTable ex_far) ''B'' = Some \<lparr>nextHop = ''B'', cost = 100\<rparr>"
    by (simp add: ex_defs)
  moreover have "\<not> cost_range_inv ex_far"
    by (simp add: cost_range_inv_def ex_defs)
  moreover have "map_sum id (\<lambda>s. map_of (rtrTable s) ''B'')
      (engine_run ex_router [LinkChange addr_B (- 1) False]) =
      Inr (Some \<lparr>nextHop = ''B'', cost = - 1\<rparr>)"
    by (simp add: engine_step_def linkChange_def ex_defs)
  moreover have "map_sum id (\<lambda>s. map_of (rtrTable s) ''C'')
      (engine_run ex_router [UpdatertrTable addr_A [(''C'', \<lparr>nextHop = ''C'', cost = - 50\<rparr>)]]) =
      Inr (Some \<lparr>nextHop = ''A'', cost = - 48\<rparr>)"
    by (simp add: engine_step_def updatertrTable_def updatertrTable_body_def Let_def ex_defs)
  ultimately show ?thesis using ex_router_init by blast
qed

section \<open>The receive loop\<close>

text \<open>A \<^verbatim>\<open>ConnectionError\<close> is caught: the state is kept and the loop goes on.\<close>

lemma recvRtrTable_ConnectionError:
  "recvRtrTable py_int json_loads s (ConnectionError # evs) = recvRtrTable py_int json_loads s evs"
  by (simp add: recvRtrTable_body_def)

text \<open>
  A payload that \<^verbatim>\<open>json.loads\<close> rejects, a sender that the identity table does not
  have, and an empty payload each raise an exception that the loop does not catch: the
  loop ends there, whatever datagrams follow, and so no table is written.
\<close>

lemma recvRtrTable_undecodable:
  assumes "c \<noteq> linkChangeFlag" and "c \<noteq> linkDownFlag" and "json_loads (c # rest) = None"
  shows "recvRtrTable py_int json_loads s (Datagram (c # rest) a # evs) = Inl JSONDecodeError"
  using assms by (simp add: recvRtrTable_body_def)

lemma recvRtrTable_unknown_sender_vector:
  assumes "map_of (addr2rName s) a = None"
    and "c \<noteq> linkChangeFlag" and "c \<noteq> linkDownFlag"
    and "json_loads (c # rest) = Some rtrtable"
  shows "recvRtrTable py_int json_loads s (Datagram (c # rest) a # evs) = Inl KeyError"
  using assms by (simp add: recvRtrTable_body_def updatertrTable_def)

lemma recvRtrTable_unknown_sender_linkChange:
  assumes "map_of (addr2rName s) a = None" and "py_int rest = Some dist"
  shows "recvRtrTable py_int json_loads s (Datagram (linkChangeFlag # rest) a # evs) =
         Inl KeyError"
  using assms by (simp add: recvRtrTable_body_def linkChange_def)

lemma recvRtrTable_unknown_sender_linkDown:
  assumes "map_of (addr2rName s) a = None"
  shows "recvRtrTable py_int json_loads s (Datagram (linkDownFlag # rest) a # evs) =
         Inl KeyError"
  using assms
  by (simp add: recvRtrTable_body_def linkDown_def linkChangeFlag_def linkDownFlag_def)

text \<open>
  Claim C5 on the code.  Router \<open>E\<close> receives from \<open>A\<close> the payload \<^verbatim>\<open>hello\<close>, which is no
  JSON text, and then the link-down notice of \<open>A\<close>: the loop ends with the decoding error
  and the notice is never handled.  So it is when the first datagram is a link-down notice
  from an address that is not in the identity table.  Had the first datagram been absent,
  or a \<^verbatim>\<open>ConnectionError\<close>, the notice would have been handled.
\<close>

theorem bad_datagram_ends_receive_loop:
  "recvRtrTable (\<lambda>d. None) (\<lambda>d. None) ex_learned
     [Datagram ''hello'' addr_A, Datagram ''#'' addr_A] = Inl JSONDecodeError \<and>
   recvRtrTable (\<lambda>d. None) (\<lambda>d. None) ex_learned
     [Datagram ''#'' (''10.0.0.1'', 20000), Datagram ''#'' addr_A] = Inl KeyError \<and>
   recvRtrTable (\<lambda>d. None) (\<lambda>d. None) ex_learned
     [Datagram ''#'' addr_A] = Inr ex_down \<and>
   recvRtrTable (\<lambda>d. None) (\<lambda>d. None) ex_learned
     [ConnectionError, Datagram ''#'' addr_A] = Inr ex_down"
  by (simp add: recvRtrTable_body_def linkChangeFlag_def linkDownFlag_def linkDown_def ex_defs)

end
